theory Spec2Isabelle
  imports
    Complex_Main
    "HOL-Library.Char_ord"
    "HOL-Library.List_Lexorder"
    "HOL-Library.Product_Lexorder"
    "HOL-Library.Log_Nat"
    "HOL-Library.Multiset"
begin

section \<open>synthaser/figure.py: the data model\<close>

text \<open>
  The module draws a list of \<^emph>\<open>synthases\<close> (annotated protein sequences) as an SVG
  figure. The class \<open>Synthase\<close> lives in \<open>synthaser.models\<close>, which the figure module
  only imports; the figure module reads the attributes \<open>header\<close>, \<open>sequence\<close>,
  \<open>domains\<close> of a synthase and \<open>type\<close>, \<open>start\<close>, \<open>end\<close> of a domain.
\<close>

text \<open>Python exceptions, with the message the source gives them.\<close>

datatype error =
    ValueError string
  | KeyError string
  | TypeError string
  | ZeroDivisionError
  | OverflowError

text \<open>Modelled from the spec: the Domain annotation (a type label, a start and an end
  position); the class is defined in \<open>synthaser.models\<close>.\<close>

record domain =
  dtype :: string
  start :: int
  "end" :: int

text \<open>Modelled from the spec: the Entity (Synthase) with its stored data, header, sequence and
  ordered domains; the class is defined in \<open>synthaser.models\<close>. The derived attributes
  \<open>type\<close>, \<open>subtype\<close> and \<open>architecture\<close> are parameters of the functions that read them.\<close>

record synthase =
  header :: string
  sequence :: string
  domains :: "domain list"

text \<open>Modelled from the spec: the derived sequence length of an entity.\<close>

definition sequence_length :: "synthase \<Rightarrow> nat" where
  "sequence_length s = length (sequence s)"

record figure =
  synthases :: "synthase list"
  colours :: "string \<rightharpoonup> string"

definition default_colours_items :: "(string \<times> string) list" where
  "default_colours_items =
    [(''ACP'', ''#084BC6''),
     (''KS'', ''#08B208''),
     (''SAT'', ''#808080''),
     (''KR'', ''#089E4B''),
     (''MT'', ''#00ff00''),
     (''ER'', ''#089E85''),
     (''AT'', ''#DC0404''),
     (''DH'', ''#B45F04''),
     (''PT'', ''#999900''),
     (''TE'', ''#750072''),
     (''TR'', ''#9933ff''),
     (''T'', ''#084BC6''),
     (''R'', ''#9933ff''),
     (''C'', ''#393989''),
     (''A'', ''#56157F'')]"

definition default_colours :: "string \<rightharpoonup> string" where
  "default_colours = map_of default_colours_items"

section \<open>Colour validation and \<open>set_colours\<close>\<close>

definition newline :: char where
  "newline = CHR 0x0A"

text \<open>The character class \<open>[A-Fa-f0-9]\<close>.\<close>

definition is_hex_digit :: "char \<Rightarrow> bool" where
  "is_hex_digit c \<longleftrightarrow>
     (CHR ''A'' \<le> c \<and> c \<le> CHR ''F'') \<or> (CHR ''a'' \<le> c \<and> c \<le> CHR ''f'') \<or>
     (CHR ''0'' \<le> c \<and> c \<le> CHR ''9'')"

text \<open>Python's \<open>$\<close> (without \<open>re.MULTILINE\<close>) matches at the end of the string and also just
  before a newline that is the last character of the string.\<close>

definition at_dollar :: "string \<Rightarrow> bool" where
  "at_dollar rest \<longleftrightarrow> rest = [] \<or> rest = [newline]"

text \<open>\<open>^#([A-Fa-f0-9]{6}|[A-Fa-f0-9]{3})$\<close> searched in the string: the anchor \<open>^\<close> fixes
  the match at position 0, then \<open>#\<close>, then six hex digits or (on backtracking) three,
  then \<open>$\<close>.\<close>

definition hex_run :: "nat \<Rightarrow> string \<Rightarrow> bool" where
  "hex_run n r \<longleftrightarrow> n \<le> length r \<and> list_all is_hex_digit (take n r) \<and> at_dollar (drop n r)"

definition validate_colour :: "string \<Rightarrow> bool" where
  "validate_colour colour =
     (case colour of
        [] \<Rightarrow> False
      | c # r \<Rightarrow> c = CHR ''#'' \<and> (hex_run 6 r \<or> hex_run 3 r))"

text \<open>The spec's wording of a valid colour: \<open>#RGB\<close> or \<open>#RRGGBB\<close>, hex digits in either
  case.\<close>

definition is_hex_colour :: "string \<Rightarrow> bool" where
  "is_hex_colour s \<longleftrightarrow>
     (\<exists>r. s = CHR ''#'' # r \<and> (length r = 3 \<or> length r = 6) \<and> list_all is_hex_digit r)"

text \<open>The loop of \<open>set_colours\<close> over \<open>colours.items()\<close>. It mutates \<open>self.colours\<close> entry by
  entry, so the registry reached when an exception leaves the loop is part of the result.\<close>

fun set_colours_loop ::
  "(string \<rightharpoonup> string) \<Rightarrow> (string \<times> string) list \<Rightarrow> (string \<rightharpoonup> string) \<times> error option"
where
  "set_colours_loop cs [] = (cs, None)"
| "set_colours_loop cs ((key, val) # rest) =
     (if cs key = None then (cs, Some (KeyError (''Invalid domain '' @ [CHR 0x27] @ key @ [CHR 0x27])))
      else if \<not> validate_colour val
        then (cs, Some (ValueError ([CHR 0x27] @ key @ [CHR 0x27] @ '' is not a valid hex code'')))
      else set_colours_loop (cs(key \<mapsto> val)) rest)"

definition set_colours :: "figure \<Rightarrow> (string \<times> string) list \<Rightarrow> figure \<times> error option" where
  "set_colours f overrides =
     (case set_colours_loop (colours f) overrides of
        (cs, r) \<Rightarrow> (f\<lparr>colours := cs\<rparr>, r))"

text \<open>\<open>Figure.__init__\<close>: the registry starts as a copy of the defaults; a non-empty
  \<open>colours\<close> argument goes through \<open>set_colours\<close>, whose exception aborts construction.\<close>

definition Figure_init :: "synthase list \<Rightarrow> (string \<times> string) list \<Rightarrow> error + figure" where
  "Figure_init syns cols =
     (let f = \<lparr>synthases = syns, colours = default_colours\<rparr> in
      if cols = [] then Inr f
      else (case set_colours f cols of
              (f', None) \<Rightarrow> Inr f'
            | (f', Some e) \<Rightarrow> Inl e))"

section \<open>\<open>wrap_fasta\<close>\<close>

text \<open>\<open>range(0, n, step)\<close> for a positive step, and the slice \<open>s[i : j]\<close> for
  \<open>0 \<le> i \<le> j\<close> (a slice is clipped to the string).\<close>

definition range_step :: "nat \<Rightarrow> nat \<Rightarrow> nat list" where
  "range_step n step = map (\<lambda>j. j * step) [0 ..< (n + step - 1) div step]"

definition slice :: "'a list \<Rightarrow> nat \<Rightarrow> nat \<Rightarrow> 'a list" where
  "slice s i j = take (j - i) (drop i s)"

text \<open>\<open>sep.join(parts)\<close>\<close>

fun join :: "string \<Rightarrow> string list \<Rightarrow> string" where
  "join sep [] = []"
| "join sep [p] = p"
| "join sep (p # q # ps) = p @ sep @ join sep (q # ps)"

definition fasta_lines :: "string \<Rightarrow> nat \<Rightarrow> string list" where
  "fasta_lines sq limit =
     map (\<lambda>i. slice sq i (i + limit)) (range_step (length sq) limit)"

text \<open>\<open>range\<close> raises for a zero step and is empty for a negative one.\<close>

definition wrap_fasta :: "string \<Rightarrow> int \<Rightarrow> error + string" where
  "wrap_fasta sq limit =
     (if limit = 0 then Inl (ValueError ''range() arg 3 must not be zero'')
      else if limit < 0 then Inr (join [newline] [])
      else Inr (join [newline] (fasta_lines sq (nat limit))))"

text \<open>The lines of a text, as \<open>text.split("\\n")\<close> gives them; used to state what the
  wrapped string looks like.\<close>

fun split_on :: "char \<Rightarrow> string \<Rightarrow> string list" where
  "split_on c [] = [[]]"
| "split_on c (x # xs) =
     (if x = c then [] # split_on c xs
      else (case split_on c xs of [] \<Rightarrow> [[x]] | l # ls \<Rightarrow> (x # l) # ls))"

text \<open>The fifteen domain types that the docstring of \<open>set_colours\<close> lists as valid.\<close>

definition domain_labels :: "string set" where
  "domain_labels = {''ACP'', ''KS'', ''SAT'', ''KR'', ''MT'', ''ER'', ''AT'', ''DH'', ''PT'', ''TE'',
     ''TR'', ''T'', ''R'', ''C'', ''A''}"

text \<open>A sequence of \<open>set_colours\<close> calls on one Figure; a call that raises leaves the
  registry as the loop had it when the exception left.\<close>

definition set_colours_calls :: "figure \<Rightarrow> (string \<times> string) list list \<Rightarrow> figure" where
  "set_colours_calls f calls = foldl (\<lambda>g overrides. fst (set_colours g overrides)) f calls"

section \<open>Sorting and grouping\<close>

text \<open>\<open>xs.sort(key=k, reverse=True)\<close>: the sort is stable, and with \<open>reverse=True\<close> elements
  with equal keys still keep their original order (the list is reversed, sorted, reversed).\<close>

definition sort_key_reverse :: "('a \<Rightarrow> 'k::linorder) \<Rightarrow> 'a list \<Rightarrow> 'a list" where
  "sort_key_reverse k xs = rev (sort_key k (rev xs))"

text \<open>\<open>sort_synthases_by_length\<close>. The attribute \<open>architecture\<close> of a synthase is defined in
  \<open>synthaser.models\<close>; it is the parameter \<open>architecture\<close> here.\<close>

definition sort_synthases_by_length :: "(synthase \<Rightarrow> string) \<Rightarrow> figure \<Rightarrow> figure" where
  "sort_synthases_by_length architecture f =
     (if list_ex (\<lambda>s. sequence s = []) (synthases f)
      then f\<lparr>synthases := sort_key_reverse (\<lambda>s. length (architecture s)) (synthases f)\<rparr>
      else f\<lparr>synthases := sort_key_reverse sequence_length (synthases f)\<rparr>)"

text \<open>The key that \<open>sort_synthases_by_length\<close> sorts a given Figure by.\<close>

definition length_key :: "(synthase \<Rightarrow> string) \<Rightarrow> figure \<Rightarrow> synthase \<Rightarrow> nat" where
  "length_key architecture f =
     (if list_ex (\<lambda>s. sequence s = []) (synthases f)
      then (\<lambda>s. length (architecture s)) else sequence_length)"

text \<open>\<open>itertools.groupby\<close>: maximal runs of consecutive elements with the same key.\<close>

function groupby :: "('a \<Rightarrow> 'k) \<Rightarrow> 'a list \<Rightarrow> ('k \<times> 'a list) list" where
  "groupby key [] = []"
| "groupby key (x # xs) =
     (key x, x # takeWhile (\<lambda>y. key y = key x) xs)
       # groupby key (dropWhile (\<lambda>y. key y = key x) xs)"
  by pat_completeness auto
termination
  by (relation "measure (\<lambda>(key, xs). length xs)") (auto simp: length_dropWhile_le less_Suc_eq_le)

text \<open>\<open>iterate_synthase_types\<close>: sorts \<open>self.synthases\<close> in place, twice, and yields the
  groups; the result is the list of groups and the Figure as the call leaves it. The attributes
  \<open>type\<close> and \<open>subtype\<close> of a synthase are the parameters \<open>stype\<close> and \<open>subtype\<close>; strings
  and tuples compare lexicographically.\<close>

definition iterate_synthase_types ::
  "(synthase \<Rightarrow> string) \<Rightarrow> (synthase \<Rightarrow> string) \<Rightarrow> (synthase \<Rightarrow> string) \<Rightarrow> figure
     \<Rightarrow> (string \<times> synthase list) list \<times> figure"
where
  "iterate_synthase_types stype subtype architecture f =
     (let f1 = sort_synthases_by_length architecture f;
          f2 = f1\<lparr>synthases := sort_key (\<lambda>s. (stype s, subtype s)) (synthases f1)\<rparr>
      in (groupby subtype (synthases f2), f2))"

text \<open>Two classifications used as examples: the type is read off the condensing domain, the
  subtype off the presence of a reducing domain.\<close>

definition example_type :: "synthase \<Rightarrow> string" where
  "example_type s = (if ''KS'' \<in> set (map dtype (domains s)) then ''PKS'' else ''NRPS'')"

definition example_subtype :: "synthase \<Rightarrow> string" where
  "example_subtype s = (if ''ER'' \<in> set (map dtype (domains s)) then ''reducing'' else ''other'')"

definition example_refined_subtype :: "synthase \<Rightarrow> string" where
  "example_refined_subtype s = example_subtype s @ '' '' @ example_type s"

definition example_architecture :: "synthase \<Rightarrow> string" where
  "example_architecture s = join ''-'' (map dtype (domains s))"

definition mk_domain :: "string \<Rightarrow> int \<Rightarrow> int \<Rightarrow> domain" where
  "mk_domain t a b = \<lparr>dtype = t, start = a, end = b\<rparr>"

definition mk_synthase :: "string \<Rightarrow> string \<Rightarrow> domain list \<Rightarrow> synthase" where
  "mk_synthase h sq ds = \<lparr>header = h, sequence = sq, domains = ds\<rparr>"

definition example_figure :: figure where
  "example_figure = \<lparr>synthases =
     [mk_synthase ''a'' ''MMM'' [mk_domain ''KS'' 0 2],
      mk_synthase ''b'' ''MMMM'' [mk_domain ''A'' 0 2],
      mk_synthase ''c'' ''MM'' [mk_domain ''A'' 0 1, mk_domain ''ER'' 1 2],
      mk_synthase ''d'' ''MMMMM'' [mk_domain ''KS'' 1 4]],
     colours = default_colours\<rparr>"


section \<open>Serialisation\<close>

text \<open>The values that \<open>json.dumps\<close> writes and \<open>json.load\<close> reads back. The JSON text between
  the two is the work of the \<open>json\<close> library and is not modelled: \<open>to_json\<close> yields, and
  \<open>from_json\<close> takes, the value.\<close>

datatype json =
    JNull
  | JBool bool
  | JInt int
  | JString string
  | JArray "json list"
  | JObject "(string \<times> json) list"

text \<open>Reading a key of a decoded object (a Python dict: of two equal keys the later one
  counts).\<close>

definition json_get :: "(string \<times> json) list \<Rightarrow> string \<Rightarrow> error + json" where
  "json_get kvs key =
     (case map_of (rev kvs) key of None \<Rightarrow> Inl (KeyError key) | Some v \<Rightarrow> Inr v)"

definition json_str :: "(string \<times> json) list \<Rightarrow> string \<Rightarrow> error + string" where
  "json_str kvs key =
     (case json_get kvs key of
        Inl e \<Rightarrow> Inl e
      | Inr (JString s) \<Rightarrow> Inr s
      | Inr _ \<Rightarrow> Inl (TypeError key))"

definition json_int :: "(string \<times> json) list \<Rightarrow> string \<Rightarrow> error + int" where
  "json_int kvs key =
     (case json_get kvs key of
        Inl e \<Rightarrow> Inl e
      | Inr (JInt i) \<Rightarrow> Inr i
      | Inr _ \<Rightarrow> Inl (TypeError key))"

text \<open>A list comprehension over a function that may raise: the first exception ends it.\<close>

fun map_result :: "('a \<Rightarrow> error + 'b) \<Rightarrow> 'a list \<Rightarrow> error + 'b list" where
  "map_result g [] = Inr []"
| "map_result g (x # xs) =
     (case g x of
        Inl e \<Rightarrow> Inl e
      | Inr y \<Rightarrow> (case map_result g xs of Inl e \<Rightarrow> Inl e | Inr ys \<Rightarrow> Inr (y # ys)))"

text \<open>Modelled from the spec: \<open>Domain.to_dict\<close> and the reading of a domain record, which
  \<open>synthaser.models\<close> defines; the serialised form of a domain is \<open>{type, start, end}\<close>.\<close>

definition domain_to_dict :: "domain \<Rightarrow> json" where
  "domain_to_dict d =
     JObject [(''type'', JString (dtype d)), (''start'', JInt (start d)), (''end'', JInt (end d))]"

definition domain_from_dict :: "json \<Rightarrow> error + domain" where
  "domain_from_dict j =
     (case j of
        JObject kvs \<Rightarrow>
          (case json_str kvs ''type'' of Inl e \<Rightarrow> Inl e | Inr t \<Rightarrow>
          (case json_int kvs ''start'' of Inl e \<Rightarrow> Inl e | Inr a \<Rightarrow>
          (case json_int kvs ''end'' of Inl e \<Rightarrow> Inl e | Inr b \<Rightarrow>
             Inr \<lparr>dtype = t, start = a, end = b\<rparr>)))
      | _ \<Rightarrow> Inl (TypeError ''domain''))"

text \<open>Modelled from the spec: \<open>Synthase.to_dict\<close> and \<open>Synthase.from_dict\<close>, which
  \<open>synthaser.models\<close> defines; the serialised form of an entity is
  \<open>{header, sequence, domains: [{type, start, end}, ...]}\<close>.\<close>

definition to_dict :: "synthase \<Rightarrow> json" where
  "to_dict s =
     JObject [(''header'', JString (header s)), (''sequence'', JString (sequence s)),
              (''domains'', JArray (map domain_to_dict (domains s)))]"

definition from_dict :: "json \<Rightarrow> error + synthase" where
  "from_dict j =
     (case j of
        JObject kvs \<Rightarrow>
          (case json_str kvs ''header'' of Inl e \<Rightarrow> Inl e | Inr h \<Rightarrow>
          (case json_str kvs ''sequence'' of Inl e \<Rightarrow> Inl e | Inr sq \<Rightarrow>
          (case json_get kvs ''domains'' of
             Inl e \<Rightarrow> Inl e
           | Inr (JArray ds) \<Rightarrow>
               (case map_result domain_from_dict ds of
                  Inl e \<Rightarrow> Inl e
                | Inr doms \<Rightarrow> Inr \<lparr>header = h, sequence = sq, domains = doms\<rparr>)
           | Inr _ \<Rightarrow> Inl (TypeError ''domains''))))
      | _ \<Rightarrow> Inl (TypeError ''synthase''))"

text \<open>\<open>to_json\<close> and \<open>from_json\<close>. The latter calls \<open>cls(synthases)\<close>, so the colours are those
  of \<open>__init__\<close> without a \<open>colours\<close> argument.\<close>

definition to_json :: "figure \<Rightarrow> json" where
  "to_json f = JArray (map to_dict (synthases f))"

definition from_json :: "json \<Rightarrow> error + figure" where
  "from_json j =
     (case j of
        JArray records \<Rightarrow>
          (case map_result from_dict records of
             Inl e \<Rightarrow> Inl e
           | Inr syns \<Rightarrow> Figure_init syns [])
      | _ \<Rightarrow> Inl (TypeError ''records''))"

section \<open>Python numbers\<close>

text \<open>A Python \<open>float\<close> is an IEEE 754 binary64 number: a finite value (a rational; the sign
  of a zero is not kept), an infinity with its sign (\<open>True\<close> for the negative one), or a NaN.\<close>

datatype pyfloat = Finite rat | Infinity bool | NaN

definition pow2 :: "int \<Rightarrow> rat" where
  "pow2 e = 2 powi e"

text \<open>The binary exponent of a positive rational: \<open>2 ^ e \<le> a < 2 ^ (e + 1)\<close>.\<close>

definition ilog2 :: "rat \<Rightarrow> int" where
  "ilog2 a = (if 1 \<le> a then bitlen \<lfloor>a\<rfloor> - 1 else - bitlen (\<lceil>1 / a\<rceil> - 1))"

text \<open>Rounding to the nearest integer, ties to the even one.\<close>

definition round_half_even :: "rat \<Rightarrow> int" where
  "round_half_even x =
     (let n = \<lfloor>x\<rfloor>; d = x - of_int n in
      if d < 1 / 2 then n else if 1 / 2 < d then n + 1 else if even n then n else n + 1)"

text \<open>Rounding to 53 significant bits, the exponent bounded below (subnormal numbers) but
  not above.\<close>

definition round_double :: "rat \<Rightarrow> rat" where
  "round_double q =
     (if q = 0 then 0
      else (let e = max (ilog2 \<bar>q\<bar>) (- 1022); ulp = pow2 (e - 52)
            in of_int (round_half_even (q / ulp)) * ulp))"

text \<open>The result of a correctly rounded operation whose exact result is \<open>q\<close>.\<close>

definition fl :: "rat \<Rightarrow> pyfloat" where
  "fl q = (let r = round_double q in if 2 ^ 1024 \<le> \<bar>r\<bar> then Infinity (q < 0) else Finite r)"

text \<open>\<open>float(i)\<close>, which is what an \<open>int\<close> operand of a \<open>float\<close> operation goes through.\<close>

definition float_of_int :: "int \<Rightarrow> error + pyfloat" where
  "float_of_int i = (case fl (of_int i) of Infinity _ \<Rightarrow> Inl OverflowError | x \<Rightarrow> Inr x)"

text \<open>\<open>a / b\<close> on two \<open>int\<close>s: the correctly rounded quotient.\<close>

definition int_truediv :: "int \<Rightarrow> int \<Rightarrow> error + pyfloat" where
  "int_truediv a b =
     (if b = 0 then Inl ZeroDivisionError
      else (case fl (of_int a / of_int b) of Infinity _ \<Rightarrow> Inl OverflowError | x \<Rightarrow> Inr x))"

fun fmul :: "pyfloat \<Rightarrow> pyfloat \<Rightarrow> pyfloat" where
  "fmul (Finite a) (Finite b) = fl (a * b)"
| "fmul (Infinity s) (Finite b) = (if b = 0 then NaN else Infinity (s \<noteq> (b < 0)))"
| "fmul (Finite a) (Infinity s) = (if a = 0 then NaN else Infinity (s \<noteq> (a < 0)))"
| "fmul (Infinity s) (Infinity t) = Infinity (s \<noteq> t)"
| "fmul _ _ = NaN"

fun fadd :: "pyfloat \<Rightarrow> pyfloat \<Rightarrow> pyfloat" where
  "fadd (Finite a) (Finite b) = fl (a + b)"
| "fadd (Infinity s) (Finite b) = Infinity s"
| "fadd (Finite a) (Infinity s) = Infinity s"
| "fadd (Infinity s) (Infinity t) = (if s = t then Infinity s else NaN)"
| "fadd _ _ = NaN"

fun fneg :: "pyfloat \<Rightarrow> pyfloat" where
  "fneg (Finite a) = Finite (- a)"
| "fneg (Infinity s) = Infinity (\<not> s)"
| "fneg NaN = NaN"

text \<open>\<open>int(x)\<close> on a \<open>float\<close>: truncation towards zero.\<close>

fun int_of_float :: "pyfloat \<Rightarrow> error + int" where
  "int_of_float (Finite r) = Inr (if 0 \<le> r then \<lfloor>r\<rfloor> else \<lceil>r\<rceil>)"
| "int_of_float (Infinity s) = Inl OverflowError"
| "int_of_float NaN = Inl (ValueError ''cannot convert float NaN to integer'')"

text \<open>A number that is an \<open>int\<close> or a \<open>float\<close>, and the arithmetic between them: two
  \<open>int\<close>s give an \<open>int\<close>, otherwise an \<open>int\<close> operand is converted and the result is a
  \<open>float\<close>.\<close>

datatype pynum = PyInt int | PyFloat pyfloat

fun py_float :: "pynum \<Rightarrow> error + pyfloat" where
  "py_float (PyInt i) = float_of_int i"
| "py_float (PyFloat x) = Inr x"

definition float_op ::
  "(pyfloat \<Rightarrow> pyfloat \<Rightarrow> pyfloat) \<Rightarrow> pynum \<Rightarrow> pynum \<Rightarrow> error + pynum" where
  "float_op op x y =
     (case py_float x of
        Inl e \<Rightarrow> Inl e
      | Inr a \<Rightarrow> (case py_float y of Inl e \<Rightarrow> Inl e | Inr b \<Rightarrow> Inr (PyFloat (op a b))))"

fun py_mul :: "pynum \<Rightarrow> pynum \<Rightarrow> error + pynum" where
  "py_mul (PyInt i) (PyInt j) = Inr (PyInt (i * j))"
| "py_mul x y = float_op fmul x y"

fun py_add :: "pynum \<Rightarrow> pynum \<Rightarrow> error + pynum" where
  "py_add (PyInt i) (PyInt j) = Inr (PyInt (i + j))"
| "py_add x y = float_op fadd x y"

fun py_sub :: "pynum \<Rightarrow> pynum \<Rightarrow> error + pynum" where
  "py_sub (PyInt i) (PyInt j) = Inr (PyInt (i - j))"
| "py_sub x y = float_op (\<lambda>a b. fadd a (fneg b)) x y"

section \<open>The scale factor\<close>

text \<open>\<open>max(xs, key=k)\<close>: the first element with the greatest key; it raises on an empty
  list.\<close>

fun max_key :: "('a \<Rightarrow> nat) \<Rightarrow> 'a list \<Rightarrow> error + 'a" where
  "max_key k [] = Inl (ValueError ''max() arg is an empty sequence'')"
| "max_key k (x # xs) = Inr (foldl (\<lambda>best y. if k best < k y then y else best) x xs)"

definition calculate_scale_factor :: "figure \<Rightarrow> int \<Rightarrow> error + pyfloat" where
  "calculate_scale_factor f width =
     (if list_ex (\<lambda>s. sequence s = []) (synthases f)
        then Inl (ValueError ''Synthases in this Figure have no sequences'')
      else if width < 0 then Inl (ValueError ''Width must be greater than 0'')
      else (case max_key sequence_length (synthases f) of
              Inl e \<Rightarrow> Inl e
            | Inr largest \<Rightarrow> int_truediv (width - 2) (int (sequence_length largest))))"


section \<open>Markup\<close>

text \<open>Sequencing of computations that may raise.\<close>

definition and_then :: "error + 'a \<Rightarrow> ('a \<Rightarrow> error + 'b) \<Rightarrow> error + 'b" where
  "and_then m g = (case m of Inl e \<Rightarrow> Inl e | Inr x \<Rightarrow> g x)"

text \<open>\<open>str(i)\<close> of an \<open>int\<close>, and the text of a number in an f-string. The text of a
  \<open>float\<close> is Python's \<open>repr\<close>, the parameter \<open>float_repr\<close>.\<close>

function str_nat :: "nat \<Rightarrow> string" where
  "str_nat n = (if n < 10 then [char_of (48 + n)] else str_nat (n div 10) @ [char_of (48 + n mod 10)])"
  by pat_completeness auto
termination
  by (relation "measure id") auto

definition str_int :: "int \<Rightarrow> string" where
  "str_int i = (if i < 0 then ''-'' @ str_nat (nat (- i)) else str_nat (nat i))"

fun format_num :: "(pyfloat \<Rightarrow> string) \<Rightarrow> pynum \<Rightarrow> string" where
  "format_num float_repr (PyInt i) = str_int i"
| "format_num float_repr (PyFloat x) = float_repr x"

definition dq :: string where
  "dq = [CHR 0x22]"

subsection \<open>\<open>generate_synthase_gradient\<close>\<close>

fun py_int :: "pynum \<Rightarrow> error + int" where
  "py_int (PyInt i) = Inr i"
| "py_int (PyFloat x) = int_of_float x"

text \<open>\<open>int(position / sequence_length * 100)\<close>\<close>

definition percent :: "int \<Rightarrow> nat \<Rightarrow> error + int" where
  "percent position len =
     and_then (int_truediv position (int len)) (\<lambda>x.
     and_then (py_mul (PyFloat x) (PyInt 100)) py_int)"

definition stop_element :: "int \<Rightarrow> string \<Rightarrow> string" where
  "stop_element pct colour =
     ''<stop offset='' @ dq @ str_int pct @ ''%'' @ dq @ '' stop-color='' @ dq @ colour @ dq @ ''/>''"

text \<open>The body of the loop over \<open>synthase.domains\<close>: the four lines appended to \<open>stops\<close>.\<close>

definition domain_stops :: "figure \<Rightarrow> nat \<Rightarrow> domain \<Rightarrow> error + string" where
  "domain_stops f len d =
     and_then (percent (start d) len) (\<lambda>start_pct.
     and_then (percent (end d) len) (\<lambda>end_pct.
     (case colours f (dtype d) of
        None \<Rightarrow> Inl (KeyError (dtype d))
      | Some colour \<Rightarrow>
          Inr (stop_element start_pct ''white'' @ [newline]
             @ stop_element start_pct colour @ [newline]
             @ stop_element end_pct colour @ [newline]
             @ stop_element end_pct ''white''))))"

definition gradient_open :: "string \<Rightarrow> string" where
  "gradient_open h =
     ''<linearGradient id='' @ dq @ h @ ''_doms'' @ dq @ '' x1='' @ dq @ ''0%'' @ dq
       @ '' y1='' @ dq @ ''0%'' @ dq @ '' x2='' @ dq @ ''100%'' @ dq @ '' y2='' @ dq @ ''0%'' @ dq
       @ ''>'' @ [newline]"

definition gradient_close :: string where
  "gradient_close = [newline] @ ''</linearGradient>''"

definition generate_synthase_gradient :: "figure \<Rightarrow> synthase \<Rightarrow> error + string" where
  "generate_synthase_gradient f s =
     (if sequence s = [] then Inl (ValueError ''Synthase has no sequence'')
      else and_then (map_result (domain_stops f (length (sequence s))) (domains s)) (\<lambda>stops.
             Inr (gradient_open (header s) @ join [newline] stops @ gradient_close)))"

text \<open>The stops as a list of offsets and colours, in the words of the specification: per
  domain a white and a coloured stop at the start percentage, then a coloured and a white stop
  at the end percentage. The percentage is the floor of \<open>position / length * 100\<close>, the
  division and the multiplication being those of \<open>float\<close>.\<close>

definition floor_percent :: "int \<Rightarrow> nat \<Rightarrow> int" where
  "floor_percent position len =
     \<lfloor>round_double (round_double (of_int position / of_nat len) * 100)\<rfloor>"



subsection \<open>\<open>generate_synthase_polygon\<close>\<close>

text \<open>The literal \<open>0.9\<close>\<close>

definition nine_tenths :: pyfloat where
  "nine_tenths = fl (9 / 10)"

text \<open>The coordinates \<open>(ax, ay)\<close>, ..., \<open>(ex, ey)\<close>, computed in the order of the source.\<close>

definition polygon_points ::
  "pynum \<Rightarrow> nat \<Rightarrow> int \<Rightarrow> int \<Rightarrow> error + (pynum \<times> pynum) list" where
  "polygon_points scale_factor len info_fsize arrow_height =
     and_then (py_mul scale_factor (PyInt (int len))) (\<lambda>scaled_length.
     and_then (py_mul (PyInt info_fsize) (PyFloat nine_tenths)) (\<lambda>info_fsize_scaled.
     and_then (py_add info_fsize_scaled (PyInt arrow_height)) (\<lambda>bottom_y.
     and_then (int_truediv arrow_height 2) (\<lambda>half.
     and_then (py_add info_fsize_scaled (PyFloat half)) (\<lambda>middle_y.
     and_then (py_sub scaled_length (PyInt 10)) (\<lambda>bx.
     and_then (py_sub scaled_length (PyInt 10)) (\<lambda>dx.
       Inr [(PyInt 0, info_fsize_scaled), (bx, info_fsize_scaled), (scaled_length, middle_y),
            (dx, bottom_y), (PyInt 0, bottom_y)])))))))"

text \<open>The markup that \<open>generate_synthase_polygon\<close> returns for given coordinates.\<close>

definition polygon_markup ::
  "(synthase \<Rightarrow> string) \<Rightarrow> (pyfloat \<Rightarrow> string) \<Rightarrow> synthase \<Rightarrow> int
     \<Rightarrow> (pynum \<times> pynum) list \<Rightarrow> string" where
  "polygon_markup architecture float_repr s info_fsize pts =
     (let points = join '','' (concat (map (\<lambda>(x, y).
                  [format_num float_repr x, format_num float_repr y]) pts));
          information = header s @ '', '' @ str_nat (length (sequence s)) @ ''aa, ''
                  @ architecture s
      in ''<text dominant-baseline='' @ dq @ ''hanging'' @ dq @ '' font-size='' @ dq
           @ str_int info_fsize @ dq @ ''>'' @ information @ ''</text>''
         @ ''<polygon id='' @ dq @ header s @ dq @ '' points='' @ dq @ points @ dq
         @ '' fill='' @ dq @ ''url(#'' @ header s @ ''_doms)'' @ dq
         @ '' stroke='' @ dq @ ''black'' @ dq
         @ '' stroke-width='' @ dq @ ''1.5'' @ dq @ ''/>'')"

definition generate_synthase_polygon ::
  "(synthase \<Rightarrow> string) \<Rightarrow> (pyfloat \<Rightarrow> string) \<Rightarrow> synthase \<Rightarrow> pynum \<Rightarrow> int \<Rightarrow> int
     \<Rightarrow> error + string" where
  "generate_synthase_polygon architecture float_repr s scale_factor info_fsize arrow_height =
     (if sequence s = [] then Inl (ValueError ''Synthase has no sequence'')
      else and_then (polygon_points scale_factor (length (sequence s)) info_fsize arrow_height)
        (\<lambda>pts. Inr (polygon_markup architecture float_repr s info_fsize pts)))"

subsection \<open>\<open>build_polygon_block\<close> and \<open>visualise\<close>\<close>

record options =
  arrow_height :: int
  arrow_spacing :: int
  block_spacing :: int
  header_fsize :: int
  info_fsize :: int
  width :: int

definition default_options :: options where
  "default_options = \<lparr>arrow_height = 12, arrow_spacing = 4, block_spacing = 16,
     header_fsize = 15, info_fsize = 12, width = 600\<rparr>"

fun polygon_block_loop ::
  "(synthase \<Rightarrow> string) \<Rightarrow> (pyfloat \<Rightarrow> string) \<Rightarrow> pynum \<Rightarrow> options \<Rightarrow> string \<times> int
     \<Rightarrow> synthase list \<Rightarrow> error + string \<times> int" where
  "polygon_block_loop architecture float_repr scale_factor opts (block, offset) [] =
     Inr (block, offset)"
| "polygon_block_loop architecture float_repr scale_factor opts (block, offset) (s # rest) =
     and_then (generate_synthase_polygon architecture float_repr s scale_factor
                 (info_fsize opts) (arrow_height opts)) (\<lambda>polygon.
       polygon_block_loop architecture float_repr scale_factor opts
         (block @ [newline] @ ''<g transform='' @ dq @ ''translate(1,'' @ str_int offset @ '')''
             @ dq @ ''>'' @ [newline] @ polygon @ [newline] @ ''</g>'',
          offset + (info_fsize opts + arrow_height opts + 4 + arrow_spacing opts)) rest)"

definition build_polygon_block ::
  "(synthase \<Rightarrow> string) \<Rightarrow> (pyfloat \<Rightarrow> string) \<Rightarrow> string \<Rightarrow> synthase list \<Rightarrow> pynum
     \<Rightarrow> options \<Rightarrow> error + string \<times> int" where
  "build_polygon_block architecture float_repr subtype syns scale_factor opts =
     polygon_block_loop architecture float_repr scale_factor opts
       (''<text dominant-baseline='' @ dq @ ''hanging'' @ dq @ '' font-size='' @ dq
          @ str_int (header_fsize opts) @ dq @ '' font-weight='' @ dq @ ''bold'' @ dq @ ''>''
          @ subtype @ ''</text>'',
        header_fsize opts) syns"

fun blocks_loop ::
  "(synthase \<Rightarrow> string) \<Rightarrow> (pyfloat \<Rightarrow> string) \<Rightarrow> pynum \<Rightarrow> options \<Rightarrow> string \<times> int
     \<Rightarrow> (string \<times> synthase list) list \<Rightarrow> error + string \<times> int" where
  "blocks_loop architecture float_repr scale_factor opts (blocks, offset) [] =
     Inr (blocks, offset)"
| "blocks_loop architecture float_repr scale_factor opts (blocks, offset) ((subtype, syns) # rest) =
     and_then (build_polygon_block architecture float_repr subtype syns scale_factor opts)
       (\<lambda>(block, height).
         blocks_loop architecture float_repr scale_factor opts
           (blocks @ ''<g transform='' @ dq @ ''translate(0,'' @ str_int offset @ '')'' @ dq
              @ ''>'' @ [newline] @ block @ [newline] @ ''</g>'',
            offset + (height + block_spacing opts)) rest)"

text \<open>\<open>visualise\<close>. Its result is the document or the exception, and the Figure as the call
  leaves it: once the scale factor is there, \<open>iterate_synthase_types\<close> sorts the synthases in
  place. The calls of \<open>log.info\<close> are left out.\<close>

definition visualise ::
  "(synthase \<Rightarrow> string) \<Rightarrow> (synthase \<Rightarrow> string) \<Rightarrow> (synthase \<Rightarrow> string) \<Rightarrow> (pyfloat \<Rightarrow> string)
     \<Rightarrow> figure \<Rightarrow> options \<Rightarrow> (error + string) \<times> figure" where
  "visualise stype subtype architecture float_repr f opts =
     (case calculate_scale_factor f (width opts) of
        Inl e \<Rightarrow> (Inl e, f)
      | Inr scale_factor \<Rightarrow>
          (case iterate_synthase_types stype subtype architecture f of
             (groups, f') \<Rightarrow>
               (and_then (blocks_loop architecture float_repr (PyFloat scale_factor) opts
                            ([], 3) groups) (\<lambda>(blocks, offset).
                and_then (map_result (generate_synthase_gradient f') (synthases f'))
                  (\<lambda>gradients.
                    Inr (''<svg width='' @ dq @ str_int (width opts) @ dq @ '' height='' @ dq
                         @ str_int (offset - block_spacing opts - arrow_spacing opts - 4) @ dq
                         @ ''>'' @ [newline] @ join [newline] gradients @ [newline] @ blocks
                         @ [newline] @ ''</svg>''))),
                f')))"


definition synthase_A :: synthase where
  "synthase_A = mk_synthase ''A'' (replicate 100 (CHR ''M'')) [mk_domain ''KS'' 0 50]"

definition figure_A :: figure where
  "figure_A = \<lparr>synthases = [synthase_A], colours = default_colours\<rparr>"

definition figure_empty_sequence :: figure where
  "figure_empty_sequence =
     \<lparr>synthases = [mk_synthase ''A'' [] [], mk_synthase ''B'' ''MMM'' []],
      colours = default_colours\<rparr>"

section \<open>Properties\<close>

subsection \<open>\<open>wrap_fasta\<close>\<close>

lemma range_step_count:
  assumes "0 < n" "0 < L"
  shows "(L + n - 1) div n = Suc ((L - n + n - 1) div n)"
proof (cases "n \<le> L")
  case True
  then have e: "L + n - 1 = (L - 1) + n" "L - n + n - 1 = L - 1" using assms by simp_all
  have "(L - 1 + n) div n = Suc ((L - 1) div n)" using assms(1) by simp
  then show ?thesis unfolding e .
next
  case False
  then have a: "L - n = 0" and b: "L + n - 1 < 2 * n" and c: "n \<le> L + n - 1" using assms by auto
  have "(L + n - 1) div n = 1" using b c assms
    by (intro div_nat_eqI) simp_all
  then show ?thesis using a assms by simp
qed

lemma fasta_lines_Nil: "fasta_lines [] n = []"
  by (cases n) (simp_all add: fasta_lines_def range_step_def)

lemma fasta_lines_rec:
  assumes "0 < n" "sq \<noteq> []"
  shows "fasta_lines sq n = take n sq # fasta_lines (drop n sq) n"
proof -
  let ?L = "length sq"
  have L: "0 < ?L" using assms by simp
  have m: "(?L + n - 1) div n = Suc ((?L - n + n - 1) div n)"
    by (rule range_step_count[OF assms(1) L])
  have u: "[0 ..< Suc k] = 0 # map Suc [0 ..< k]" for k
    by (simp add: upt_conv_Cons map_Suc_upt del: upt_Suc)
  have "fasta_lines sq n = map (\<lambda>j. take n (drop (j * n) sq)) [0 ..< Suc ((?L - n + n - 1) div n)]"
    unfolding fasta_lines_def range_step_def m by (simp add: slice_def o_def del: upt_Suc)
  also have "\<dots> = take n sq # map (\<lambda>j. take n (drop (j * n) (drop n sq))) [0 ..< (?L - n + n - 1) div n]"
    unfolding u by (simp add: o_def add.commute[of _ n])
  also have "\<dots> = take n sq # fasta_lines (drop n sq) n"
    unfolding fasta_lines_def range_step_def by (simp add: slice_def o_def)
  finally show ?thesis .
qed

lemma concat_fasta_lines: "0 < n \<Longrightarrow> concat (fasta_lines sq n) = sq"
proof (induction sq rule: length_induct)
  case (1 xs)
  show ?case
  proof (cases "xs = []")
    case True
    then show ?thesis by (simp add: fasta_lines_Nil)
  next
    case False
    then have "length (drop n xs) < length xs" using 1(2) by simp
    then have "concat (fasta_lines (drop n xs) n) = drop n xs" using 1 by blast
    then show ?thesis using False 1(2) by (simp add: fasta_lines_rec)
  qed
qed


lemma fasta_lines_eq_Nil: "0 < n \<Longrightarrow> fasta_lines sq n = [] \<longleftrightarrow> sq = []"
  by (cases "sq = []") (simp_all add: fasta_lines_Nil fasta_lines_rec)

lemma fasta_lines_length: "0 < n \<Longrightarrow> l \<in> set (fasta_lines sq n) \<Longrightarrow> 0 < length l \<and> length l \<le> n"
proof (induction sq rule: length_induct)
  case (1 xs)
  show ?case
  proof (cases "xs = []")
    case True
    then show ?thesis using 1(3) by (simp add: fasta_lines_Nil)
  next
    case False
    then have lt: "length (drop n xs) < length xs" using 1(2) by simp
    from False 1(2,3) have "l = take n xs \<or> l \<in> set (fasta_lines (drop n xs) n)"
      by (simp add: fasta_lines_rec)
    then show ?thesis
    proof
      assume "l = take n xs"
      then show ?thesis using False 1(2) by simp
    next
      assume "l \<in> set (fasta_lines (drop n xs) n)"
      then show ?thesis using 1(1) lt 1(2) by blast
    qed
  qed
qed

lemma fasta_lines_butlast: "0 < n \<Longrightarrow> l \<in> set (butlast (fasta_lines sq n)) \<Longrightarrow> length l = n"
proof (induction sq rule: length_induct)
  case (1 xs)
  show ?case
  proof (cases "xs = []")
    case True
    then show ?thesis using 1(3) by (simp add: fasta_lines_Nil)
  next
    case False
    then have lt: "length (drop n xs) < length xs" using 1(2) by simp
    show ?thesis
    proof (cases "drop n xs = []")
      case True
      then show ?thesis using False 1(2,3) by (simp add: fasta_lines_rec fasta_lines_Nil)
    next
      case d: False
      then have ne: "fasta_lines (drop n xs) n \<noteq> []" using 1(2) by (simp add: fasta_lines_eq_Nil)
      from d have len: "length (take n xs) = n" by simp
      from False 1(2,3) ne have "l = take n xs \<or> l \<in> set (butlast (fasta_lines (drop n xs) n))"
        by (simp add: fasta_lines_rec)
      then show ?thesis using len 1(1) lt 1(2) by blast
    qed
  qed
qed

lemma filter_join: "filter (\<lambda>c. c \<noteq> newline) (join [newline] ls) = filter (\<lambda>c. c \<noteq> newline) (concat ls)"
  by (induction "[newline]" ls rule: join.induct) simp_all

lemma split_on_plain: "c \<notin> set p \<Longrightarrow> split_on c p = [p]"
  by (induction p) auto

lemma split_on_append: "c \<notin> set p \<Longrightarrow> split_on c (p @ c # r) = p # split_on c r"
  by (induction p) auto

lemma split_on_join:
  "ls \<noteq> [] \<Longrightarrow> \<forall>l\<in>set ls. newline \<notin> set l \<Longrightarrow> split_on newline (join [newline] ls) = ls"
  by (induction "[newline]" ls rule: join.induct) (simp_all add: split_on_plain split_on_append)

text \<open>
  Claim C8. For every sequence and every positive line width, \<open>wrap_fasta\<close> returns the
  lines \<open>fasta_lines\<close> joined by line breaks: the lines concatenate to the sequence, every
  line but the last has exactly \<open>limit\<close> characters, every line has between 1 and \<open>limit\<close>
  characters; splitting the result at its line breaks gives these lines back when the sequence
  itself has no line break, and deleting the line breaks from the result gives the sequence
  (without its own line breaks).
\<close>

theorem wrap_fasta_line_breaks:
  assumes "0 < limit"
  shows "wrap_fasta sq limit = Inr (join [newline] (fasta_lines sq (nat limit)))
    \<and> concat (fasta_lines sq (nat limit)) = sq
    \<and> (\<forall>l\<in>set (butlast (fasta_lines sq (nat limit))). length l = nat limit)
    \<and> (\<forall>l\<in>set (fasta_lines sq (nat limit)). 0 < length l \<and> length l \<le> nat limit)
    \<and> (newline \<notin> set sq \<longrightarrow> sq \<noteq> [] \<longrightarrow>
          split_on newline (join [newline] (fasta_lines sq (nat limit))) = fasta_lines sq (nat limit))
    \<and> filter (\<lambda>c. c \<noteq> newline) (join [newline] (fasta_lines sq (nat limit)))
          = filter (\<lambda>c. c \<noteq> newline) sq"
proof -
  let ?n = "nat limit"
  let ?ls = "fasta_lines sq ?n"
  have n: "0 < ?n" using assms by simp
  have c: "concat ?ls = sq" by (rule concat_fasta_lines[OF n])
  have w: "wrap_fasta sq limit = Inr (join [newline] ?ls)" using assms by (simp add: wrap_fasta_def)
  have b: "\<forall>l\<in>set (butlast ?ls). length l = ?n" using fasta_lines_butlast[OF n] by blast
  have l: "\<forall>l\<in>set ?ls. 0 < length l \<and> length l \<le> ?n" using fasta_lines_length[OF n] by blast
  have s: "split_on newline (join [newline] ?ls) = ?ls" if "newline \<notin> set sq" "sq \<noteq> []"
  proof (rule split_on_join)
    show "?ls \<noteq> []" using that(2) n by (simp add: fasta_lines_eq_Nil)
    have "set l \<subseteq> set sq" if "l \<in> set ?ls" for l
      using that c by (metis UN_I set_concat subsetI)
    then show "\<forall>l\<in>set ?ls. newline \<notin> set l" using that(1) by blast
  qed
  have f: "filter (\<lambda>c. c \<noteq> newline) (join [newline] ?ls) = filter (\<lambda>c. c \<noteq> newline) sq"
    by (simp add: filter_join c)
  show ?thesis using w c b l s f by blast
qed

text \<open>85 characters at limit 80: two lines, of 80 and of 5 characters.\<close>

theorem wrap_fasta_line_breaks_witness:
  "wrap_fasta (replicate 85 (CHR ''A'')) 80
     = Inr (replicate 80 (CHR ''A'') @ [newline] @ replicate 5 (CHR ''A''))
   \<and> map length (fasta_lines (replicate 85 (CHR ''A'')) 80) = [80, 5]
   \<and> concat (fasta_lines (replicate 85 (CHR ''A'')) (nat 80)) = replicate 85 (CHR ''A'')"
proof -
  have h: "(0::int) < 80" by simp
  have fl: "fasta_lines (replicate 85 (CHR ''A'')) 80 = [replicate 80 (CHR ''A''), replicate 5 (CHR ''A'')]"
    by code_simp
  have "wrap_fasta (replicate 85 (CHR ''A'')) 80 = Inr (join [newline] (fasta_lines (replicate 85 (CHR ''A'')) (nat 80)))"
    and "concat (fasta_lines (replicate 85 (CHR ''A'')) (nat 80)) = replicate 85 (CHR ''A'')"
    using wrap_fasta_line_breaks[OF h, of "replicate 85 (CHR ''A'')"] by blast+
  then show ?thesis using fl by simp
qed


subsection \<open>The colour registry\<close>

lemma set_colours_loop_dom: "dom (fst (set_colours_loop cs ovs)) = dom cs"
proof (induction ovs arbitrary: cs)
  case Nil
  then show ?case by simp
next
  case (Cons kv ovs)
  obtain k v where kv: "kv = (k, v)" by (cases kv)
  show ?case
  proof (cases "cs k = None \<or> \<not> validate_colour v")
    case True
    then show ?thesis by (auto simp: kv)
  next
    case False
    then have d: "dom (cs(k \<mapsto> v)) = dom cs" by auto
    have "dom (fst (set_colours_loop (cs(k \<mapsto> v)) ovs)) = dom (cs(k \<mapsto> v))"
      by (rule Cons.IH)
    moreover from False have "cs k \<noteq> None" "validate_colour v" by simp_all
    then have "set_colours_loop cs (kv # ovs) = set_colours_loop (cs(k \<mapsto> v)) ovs"
      unfolding kv set_colours_loop.simps by (simp only: if_False not_True_eq_False simp_thms)
    ultimately show ?thesis using d by simp
  qed
qed

lemma set_colours_dom: "dom (colours (fst (set_colours f ovs))) = dom (colours f)"
  using set_colours_loop_dom[of "colours f" ovs]
  by (cases "set_colours_loop (colours f) ovs") (simp add: set_colours_def)

lemma set_colours_calls_dom: "dom (colours (set_colours_calls f calls)) = dom (colours f)"
  unfolding set_colours_calls_def
  by (induction calls arbitrary: f) (simp_all add: set_colours_dom)

lemma dom_default_colours: "dom default_colours = domain_labels"
  unfolding default_colours_def default_colours_items_def domain_labels_def
  by (simp add: dom_map_of_conv_image_fst)

lemma card_domain_labels: "card domain_labels = 15"
  unfolding domain_labels_def by simp

lemma Figure_init_dom: "Figure_init syns cols = Inr g \<Longrightarrow> dom (colours g) = domain_labels"
proof -
  assume a: "Figure_init syns cols = Inr g"
  let ?f = "\<lparr>synthases = syns, colours = default_colours\<rparr>"
  show ?thesis
  proof (cases "cols = []")
    case True
    then have "g = ?f" using a by (simp add: Figure_init_def)
    then show ?thesis by (simp add: dom_default_colours)
  next
    case False
    then have "g = fst (set_colours ?f cols)" using a
      by (auto simp: Figure_init_def Let_def split: prod.splits option.splits)
    then show ?thesis using set_colours_dom[of ?f cols] by (simp add: dom_default_colours)
  qed
qed

text \<open>
  Claim C10. The key set of the colour registry is invariant: a constructed Figure has exactly
  the fifteen domain labels as keys, any sequence of \<open>set_colours\<close> calls (raising or not)
  leaves the key set as it is, and so does every single call on any Figure.
\<close>

theorem colour_keys_invariant:
  assumes "Figure_init syns cols = Inr g"
  shows "dom (colours g) = domain_labels
    \<and> dom (colours (set_colours_calls g calls)) = domain_labels
    \<and> card domain_labels = 15
    \<and> (\<forall>f overrides. dom (colours (fst (set_colours f overrides))) = dom (colours f))"
  using Figure_init_dom[OF assms] set_colours_calls_dom[of g calls] card_domain_labels
    set_colours_dom by simp

theorem colour_keys_invariant_witness:
  "Figure_init [] [(''KS'', ''#000'')]
     = Inr \<lparr>synthases = [], colours = default_colours(''KS'' \<mapsto> ''#000'')\<rparr>
   \<and> dom (colours (set_colours_calls
        \<lparr>synthases = [], colours = default_colours(''KS'' \<mapsto> ''#000'')\<rparr>
        [[(''XX'', ''#000000'')], [(''KS'', ''notacolor'')], [(''AT'', ''#fff'')]])) = domain_labels"
proof -
  have i: "Figure_init [] [(''KS'', ''#000'')]
     = Inr \<lparr>synthases = [], colours = default_colours(''KS'' \<mapsto> ''#000'')\<rparr>"
    by (simp add: Figure_init_def set_colours_def default_colours_def default_colours_items_def
        validate_colour_def hex_run_def at_dollar_def is_hex_digit_def)
  show ?thesis using i colour_keys_invariant[OF i] by simp
qed

lemma hex_run_iff:
  "hex_run n r \<longleftrightarrow>
     (length r = n \<and> list_all is_hex_digit r) \<or>
     (\<exists>t. r = t @ [newline] \<and> length t = n \<and> list_all is_hex_digit t)"
proof
  assume h: "hex_run n r"
  then have n: "n \<le> length r" and a: "list_all is_hex_digit (take n r)"
    and d: "drop n r = [] \<or> drop n r = [newline]"
    by (simp_all add: hex_run_def at_dollar_def)
  from d show "(length r = n \<and> list_all is_hex_digit r) \<or>
     (\<exists>t. r = t @ [newline] \<and> length t = n \<and> list_all is_hex_digit t)"
  proof
    assume "drop n r = []"
    then have "length r = n" "take n r = r" using n by simp_all
    then show ?thesis using a by simp
  next
    assume e: "drop n r = [newline]"
    have "r = take n r @ drop n r" by simp
    then have "r = take n r @ [newline]" using e by simp
    moreover have "length (take n r) = n" using n by simp
    ultimately show ?thesis using a by blast
  qed
next
  assume "(length r = n \<and> list_all is_hex_digit r) \<or>
     (\<exists>t. r = t @ [newline] \<and> length t = n \<and> list_all is_hex_digit t)"
  then show "hex_run n r"
    by (auto simp: hex_run_def at_dollar_def)
qed

lemma validate_colour_char:
  "validate_colour s \<longleftrightarrow> is_hex_colour s \<or> (\<exists>t. s = t @ [newline] \<and> is_hex_colour t)"
proof (cases s)
  case Nil
  then show ?thesis by (simp add: validate_colour_def is_hex_colour_def)
next
  case (Cons c r)
  have "(\<exists>t. c # r = t @ [newline] \<and> is_hex_colour t) \<longleftrightarrow>
        c = CHR ''#'' \<and> (\<exists>u. r = u @ [newline] \<and> (length u = 3 \<or> length u = 6) \<and> list_all is_hex_digit u)"
    by (auto simp: is_hex_colour_def)
  then show ?thesis unfolding Cons
    by (auto simp: validate_colour_def hex_run_iff is_hex_colour_def)
qed

lemma is_hex_colour_valid: "is_hex_colour s \<Longrightarrow> validate_colour s"
  by (simp add: validate_colour_char)

text \<open>What \<open>set_colours\<close> does with its entries: an entry with an unknown key or a value that
  fails the validation makes it raise; when it does not raise, every entry has been stored.\<close>

lemma set_colours_loop_raises:
  assumes "(k, v) \<in> set ovs" "cs k = None \<or> \<not> validate_colour v"
  shows "\<exists>e. snd (set_colours_loop cs ovs) = Some e"
  using assms
proof (induction ovs arbitrary: cs)
  case Nil
  then show ?case by simp
next
  case (Cons kv ovs)
  obtain k' v' where kv: "kv = (k', v')" by (cases kv)
  show ?case
  proof (cases "cs k' = None \<or> \<not> validate_colour v'")
    case True
    then show ?thesis by (auto simp: kv)
  next
    case False
    then have ok: "cs k' \<noteq> None" "validate_colour v'" by simp_all
    then have step: "set_colours_loop cs (kv # ovs) = set_colours_loop (cs(k' \<mapsto> v')) ovs"
      unfolding kv set_colours_loop.simps by (simp only: if_False not_True_eq_False simp_thms)
    have mem: "(k, v) \<in> set ovs" using Cons.prems(1) ok Cons.prems(2) kv by auto
    have bad: "(cs(k' \<mapsto> v')) k = None \<or> \<not> validate_colour v"
      using Cons.prems(2) ok by (cases "k = k'") auto
    show ?thesis unfolding step by (rule Cons.IH[of "cs(k' \<mapsto> v')", OF mem bad])
  qed
qed

lemma set_colours_loop_applies:
  assumes "snd (set_colours_loop cs ovs) = None"
  shows "fst (set_colours_loop cs ovs) = cs ++ map_of (rev ovs)"
  using assms
proof (induction ovs arbitrary: cs)
  case Nil
  then show ?case by simp
next
  case (Cons kv ovs)
  obtain k v where kv: "kv = (k, v)" by (cases kv)
  have ok: "cs k \<noteq> None" "validate_colour v"
    using Cons.prems unfolding kv by (auto split: if_splits)
  then have step: "set_colours_loop cs (kv # ovs) = set_colours_loop (cs(k \<mapsto> v)) ovs"
    unfolding kv set_colours_loop.simps by (simp only: if_False not_True_eq_False simp_thms)
  have "fst (set_colours_loop (cs(k \<mapsto> v)) ovs) = cs(k \<mapsto> v) ++ map_of (rev ovs)"
    using Cons.prems unfolding step by (rule Cons.IH)
  also have "\<dots> = cs ++ map_of (rev (kv # ovs))"
    by (simp add: kv map_add_upd_left fun_eq_iff map_add_def split: option.splits)
  finally show ?case unfolding step .
qed

lemma set_colours_raises:
  "(k, v) \<in> set overrides \<Longrightarrow> k \<notin> dom (colours f) \<or> \<not> validate_colour v \<Longrightarrow>
   \<exists>e. snd (set_colours f overrides) = Some e"
  using set_colours_loop_raises[of k v overrides "colours f"]
  by (cases "set_colours_loop (colours f) overrides") (auto simp: set_colours_def domIff)

lemma set_colours_overwrites:
  "snd (set_colours f overrides) = None \<Longrightarrow>
   colours (fst (set_colours f overrides)) = colours f ++ map_of (rev overrides)"
  using set_colours_loop_applies[of "colours f" overrides]
  by (cases "set_colours_loop (colours f) overrides") (auto simp: set_colours_def)

lemma set_colours_scenarios:
  "snd (set_colours \<lparr>synthases = [], colours = default_colours\<rparr> [(''XX'', ''#000000'')])
     = Some (KeyError (''Invalid domain '' @ [CHR 0x27] @ ''XX'' @ [CHR 0x27]))"
  "snd (set_colours \<lparr>synthases = [], colours = default_colours\<rparr> [(''KS'', ''notacolor'')])
     = Some (ValueError ([CHR 0x27] @ ''KS'' @ [CHR 0x27] @ '' is not a valid hex code''))"
  by (simp_all add: set_colours_def default_colours_def default_colours_items_def
      validate_colour_def hex_run_def at_dollar_def is_hex_digit_def)

lemma set_colours_stores_newline:
  "colours (fst (set_colours \<lparr>synthases = [], colours = default_colours\<rparr>
        [(''KS'', ''#FFF'' @ [newline])])) ''KS'' = Some (''#FFF'' @ [newline])"
  by (simp add: set_colours_def default_colours_def default_colours_items_def
      validate_colour_def hex_run_def at_dollar_def is_hex_digit_def newline_def)

text \<open>
  Claim C5. Colour validation is meant to succeed exactly on \<open>#RGB\<close> and \<open>#RRGGBB\<close>. The
  pattern ends in \<open>$\<close>, which also matches before a final newline, so the code accepts a
  hex colour followed by a newline: \<open>validate_colour\<close> holds of \<open>"#FFF\\n"\<close>, which is not
  a hex colour.
\<close>

theorem validate_colour_trailing_newline:
  "validate_colour (''#FFF'' @ [newline]) \<and> \<not> is_hex_colour (''#FFF'' @ [newline])"
  by (simp add: validate_colour_def hex_run_def at_dollar_def is_hex_digit_def is_hex_colour_def newline_def)


subsection \<open>Grouping by subtype\<close>

lemma concat_groupby: "concat (map snd (groupby key xs)) = xs"
  by (induction key xs rule: groupby.induct) simp_all

lemma groupby_member:
  "(k, g) \<in> set (groupby key xs) \<Longrightarrow> g \<noteq> [] \<and> (\<forall>s\<in>set g. key s = k) \<and> set g \<subseteq> set xs"
proof (induction key xs rule: groupby.induct)
  case (1 key)
  then show ?case by simp
next
  case (2 key x xs)
  define d where "d = dropWhile (\<lambda>y. key y = key x) xs"
  define t where "t = takeWhile (\<lambda>y. key y = key x) xs"
  have tP: "\<forall>y\<in>set t. key y = key x \<and> y \<in> set xs"
    unfolding t_def by (metis set_takeWhileD)
  have dsub: "set d \<subseteq> set xs" unfolding d_def by (metis set_dropWhileD subsetI)
  from 2(2) have "(k = key x \<and> g = x # t) \<or> (k, g) \<in> set (groupby key d)"
    by (simp add: t_def d_def)
  then show ?case
  proof
    assume a: "k = key x \<and> g = x # t"
    then show ?thesis using tP by auto
  next
    assume "(k, g) \<in> set (groupby key d)"
    then have "g \<noteq> [] \<and> (\<forall>s\<in>set g. key s = k) \<and> set g \<subseteq> set d"
      unfolding d_def by (rule 2(1))
    then show ?thesis using dsub by auto
  qed
qed

lemma groupby_keys: "set (map fst (groupby key xs)) \<subseteq> key ` set xs"
proof
  fix k assume "k \<in> set (map fst (groupby key xs))"
  then obtain g where kg: "(k, g) \<in> set (groupby key xs)" by auto
  from groupby_member[OF kg] obtain s where "s \<in> set g" "key s = k" "s \<in> set xs"
    by (cases g) auto
  then show "k \<in> key ` set xs" by blast
qed

text \<open>In a list sorted by a key that determines, and on this list is determined by, the
  grouping key, nothing after the first run of a grouping key has that key again.\<close>

lemma sorted_run_complete:
  fixes tk :: "'a \<Rightarrow> 'k::linorder"
  assumes srt: "sorted (map tk (x # xs))"
    and fd: "\<forall>s\<in>set (x # xs). \<forall>t\<in>set (x # xs). st s = st t \<longrightarrow> tk s = tk t"
    and tkst: "\<forall>s t. tk s = tk t \<longrightarrow> st s = st t"
    and y: "y \<in> set (dropWhile (\<lambda>y. st y = st x) xs)"
  shows "st y \<noteq> st x"
proof
  assume e: "st y = st x"
  let ?P = "\<lambda>y. st y = st x"
  from y obtain z zs where d: "dropWhile ?P xs = z # zs" by (cases "dropWhile ?P xs") auto
  then have nz: "st z \<noteq> st x" using hd_dropWhile[of ?P xs] by auto
  have "xs = takeWhile ?P xs @ z # zs" unfolding d[symmetric] by simp
  then obtain ts where xs: "xs = ts @ z # zs" ..
  have yzs: "y = z \<or> y \<in> set zs" using y d by simp
  have zin: "z \<in> set xs" and yin: "y \<in> set xs" using yzs unfolding xs by auto
  have xz: "tk x \<le> tk z" using srt zin by simp
  have s2: "sorted (map tk (ts @ z # zs))" using srt unfolding xs by simp
  have zy: "tk z \<le> tk y"
  proof (cases "y = z")
    case True
    then show ?thesis by simp
  next
    case False
    then have "y \<in> set zs" using yzs by simp
    then show ?thesis using s2 by (simp add: sorted_append)
  qed
  have "y \<in> set (x # xs)" "x \<in> set (x # xs)" using yin by simp_all
  with fd e have "tk y = tk x" by blast
  then have "tk z = tk x" using xz zy by simp
  then have "st z = st x" using tkst by blast
  then show False using nz by simp
qed

lemma groupby_sorted_filter:
  fixes tk :: "'a \<Rightarrow> 'k::linorder"
  shows "sorted (map tk xs) \<Longrightarrow>
    \<forall>s\<in>set xs. \<forall>t\<in>set xs. st s = st t \<longrightarrow> tk s = tk t \<Longrightarrow>
    \<forall>s t. tk s = tk t \<longrightarrow> st s = st t \<Longrightarrow>
    distinct (map fst (groupby st xs))
     \<and> (\<forall>kg\<in>set (groupby st xs). snd kg = filter (\<lambda>s. st s = fst kg) xs)"
proof (induction xs rule: length_induct)
  case (1 ys)
  show ?case
  proof (cases ys)
    case Nil
    then show ?thesis by simp
  next
    case (Cons x xs)
    define d where "d = dropWhile (\<lambda>y. st y = st x) xs"
    define t where "t = takeWhile (\<lambda>y. st y = st x) xs"
    have xs: "xs = t @ d" by (simp add: t_def d_def)
    have g: "groupby st (x # xs) = (st x, x # t) # groupby st d" by (simp add: t_def d_def)
    have tP: "\<forall>y\<in>set t. st y = st x" unfolding t_def by (metis set_takeWhileD)
    have srt: "sorted (map tk (x # xs))" using 1(2) unfolding Cons .
    have fd: "\<forall>s\<in>set (x # xs). \<forall>t\<in>set (x # xs). st s = st t \<longrightarrow> tk s = tk t"
      using 1(3) unfolding Cons .
    have nod: "\<forall>y\<in>set d. st y \<noteq> st x"
      unfolding d_def using sorted_run_complete[OF srt fd 1(4)] by blast
    have sub: "set d \<subseteq> set (x # xs)" unfolding xs by (simp add: subset_iff)
    have "sorted (map tk (x # t @ d))" using srt unfolding xs .
    then have sd: "sorted (map tk d)" by (simp add: sorted_append)
    have fdd: "\<forall>s\<in>set d. \<forall>t\<in>set d. st s = st t \<longrightarrow> tk s = tk t"
      using fd sub by blast
    have "length d \<le> length xs" unfolding d_def by (rule length_dropWhile_le)
    then have ld: "length d < length ys" using Cons by simp
    have IH: "distinct (map fst (groupby st d))
       \<and> (\<forall>kg\<in>set (groupby st d). snd kg = filter (\<lambda>s. st s = fst kg) d)"
    proof -
      have a: "\<And>s t. s \<in> set d \<Longrightarrow> t \<in> set d \<Longrightarrow> st s = st t \<Longrightarrow> tk s = tk t"
        using fdd by blast
      have b: "\<And>s t. tk s = tk t \<Longrightarrow> st s = st t" using 1(4) by blast
      show ?thesis by (rule 1(1)[rule_format, OF ld sd a b])
    qed
    have keys: "set (map fst (groupby st d)) \<subseteq> st ` set d" by (rule groupby_keys)
    then have fresh: "st x \<notin> set (map fst (groupby st d))" using nod by auto
    have f1: "filter (\<lambda>y. st y = st x) (x # xs) = x # t"
    proof -
      have "filter (\<lambda>y. st y = st x) d = []" using nod by (simp add: filter_empty_conv)
      moreover have "filter (\<lambda>y. st y = st x) t = t" using tP by (simp add: filter_id_conv)
      ultimately show ?thesis unfolding xs by simp
    qed
    have f2: "filter (\<lambda>s. st s = k) (x # xs) = filter (\<lambda>s. st s = k) d"
      if "k \<in> set (map fst (groupby st d))" for k
    proof -
      from that fresh have kx: "st x \<noteq> k" by auto
      then have "filter (\<lambda>s. st s = k) t = []"
        using tP by (auto simp: filter_empty_conv)
      then show ?thesis using kx unfolding xs by simp
    qed
    have "distinct (map fst (groupby st (x # xs)))" unfolding g using IH fresh by simp
    moreover have "snd kg = filter (\<lambda>s. st s = fst kg) (x # xs)"
      if kg: "kg \<in> set (groupby st (x # xs))" for kg
    proof -
      from kg have "kg = (st x, x # t) \<or> kg \<in> set (groupby st d)"
        unfolding g by simp
      then show ?thesis
      proof
        assume "kg = (st x, x # t)"
        then show ?thesis using f1 by simp
      next
        assume m: "kg \<in> set (groupby st d)"
        then have "fst kg \<in> set (map fst (groupby st d))" by simp
        then have "filter (\<lambda>s. st s = fst kg) (x # xs) = filter (\<lambda>s. st s = fst kg) d"
          by (rule f2)
        moreover have "snd kg = filter (\<lambda>s. st s = fst kg) d" using IH m by blast
        ultimately show ?thesis by simp
      qed
    qed
    ultimately show ?thesis unfolding Cons by blast
  qed
qed

lemma mset_sort_key_reverse: "mset (sort_key_reverse k xs) = mset xs"
  by (simp add: sort_key_reverse_def)

lemma sorted_sort_key_reverse: "sorted (rev (map k (sort_key_reverse k xs)))"
  by (simp add: sort_key_reverse_def rev_map)

lemma sorted_rev_filter:
  fixes k :: "'a \<Rightarrow> 'k::linorder"
  assumes "sorted (rev (map k xs))"
  shows "sorted (rev (map k (filter P xs)))"
proof -
  have "sorted (map k (rev xs))" using assms by (simp add: rev_map)
  then have "sorted (map k (filter P (rev xs)))" by (rule sorted_filter)
  then show ?thesis by (simp add: rev_map rev_filter)
qed

lemma sort_synthases_by_length_eq:
  "synthases (sort_synthases_by_length ar f) = sort_key_reverse (length_key ar f) (synthases f)"
  by (simp add: sort_synthases_by_length_def length_key_def)

lemma iterate_synthase_types_eq:
  "iterate_synthase_types ty st ar f =
     (groupby st (sort_key (\<lambda>s. (ty s, st s)) (synthases (sort_synthases_by_length ar f))),
      (sort_synthases_by_length ar f)
        \<lparr>synthases := sort_key (\<lambda>s. (ty s, st s)) (synthases (sort_synthases_by_length ar f))\<rparr>)"
  by (simp add: iterate_synthase_types_def Let_def)

text \<open>
  Claim C1 (as amended). For every Figure and every classification: the groups yielded by
  \<open>iterate_synthase_types\<close> concatenate to a permutation of the synthases (and to the list
  the call leaves in the Figure); every group is non-empty and all its members have the
  subtype that keys the group; the concatenation is in ascending (type, subtype) order; the
  length sort leaves the list in descending order of its key. If, in addition, synthases of the
  same subtype always have the same type, the group keys are pairwise distinct and every group
  is exactly the sub-list of the length-sorted list with that subtype, so it is in descending
  length order.
\<close>

theorem iterate_synthase_types_groups:
  "mset (concat (map snd (fst (iterate_synthase_types ty st ar f)))) = mset (synthases f)
   \<and> synthases (snd (iterate_synthase_types ty st ar f))
        = concat (map snd (fst (iterate_synthase_types ty st ar f)))
   \<and> (\<forall>kg\<in>set (fst (iterate_synthase_types ty st ar f)).
         snd kg \<noteq> [] \<and> (\<forall>s\<in>set (snd kg). st s = fst kg))
   \<and> sorted (map (\<lambda>s. (ty s, st s)) (concat (map snd (fst (iterate_synthase_types ty st ar f)))))
   \<and> sorted (rev (map (length_key ar f) (synthases (sort_synthases_by_length ar f))))
   \<and> ((\<forall>s\<in>set (synthases f). \<forall>t\<in>set (synthases f). st s = st t \<longrightarrow> ty s = ty t) \<longrightarrow>
        distinct (map fst (fst (iterate_synthase_types ty st ar f)))
        \<and> (\<forall>kg\<in>set (fst (iterate_synthase_types ty st ar f)).
              snd kg = filter (\<lambda>s. st s = fst kg) (synthases (sort_synthases_by_length ar f))
              \<and> sorted (rev (map (length_key ar f) (snd kg)))))"
proof -
  define L where "L = synthases (sort_synthases_by_length ar f)"
  define tk where "tk = (\<lambda>s. (ty s, st s))"
  define T where "T = sort_key tk L"
  define G where "G = groupby st T"
  have G: "fst (iterate_synthase_types ty st ar f) = G"
    and F: "synthases (snd (iterate_synthase_types ty st ar f)) = T"
    by (simp_all add: iterate_synthase_types_eq G_def T_def L_def tk_def)
  have Leq: "L = sort_key_reverse (length_key ar f) (synthases f)"
    by (simp add: L_def sort_synthases_by_length_eq)
  have mL: "mset L = mset (synthases f)" by (simp add: Leq mset_sort_key_reverse)
  have mT: "mset T = mset L" by (simp add: T_def)
  have sT: "set T = set L" by (simp add: T_def)
  have sL: "set L = set (synthases f)" using mL by (rule mset_eq_setD)
  have cG: "concat (map snd G) = T" by (simp add: G_def concat_groupby)
  have srtT: "sorted (map tk T)" by (simp add: T_def)
  have srtL: "sorted (rev (map (length_key ar f) L))"
    by (simp add: Leq sorted_sort_key_reverse)
  have c1: "mset (concat (map snd G)) = mset (synthases f)" by (simp add: cG mT mL)
  have c2: "T = concat (map snd G)" by (simp add: cG)
  have c3: "\<forall>kg\<in>set G. snd kg \<noteq> [] \<and> (\<forall>s\<in>set (snd kg). st s = fst kg)"
  proof
    fix kg assume "kg \<in> set G"
    then have "(fst kg, snd kg) \<in> set (groupby st T)" by (simp add: G_def)
    from groupby_member[OF this] show "snd kg \<noteq> [] \<and> (\<forall>s\<in>set (snd kg). st s = fst kg)"
      by blast
  qed
  have c4: "sorted (map tk (concat (map snd G)))" by (simp add: cG srtT)
  have c6: "distinct (map fst G)
        \<and> (\<forall>kg\<in>set G. snd kg = filter (\<lambda>s. st s = fst kg) L
              \<and> sorted (rev (map (length_key ar f) (snd kg))))"
    if fd: "\<forall>s\<in>set (synthases f). \<forall>t\<in>set (synthases f). st s = st t \<longrightarrow> ty s = ty t"
  proof -
    have fdT: "\<forall>s\<in>set T. \<forall>t\<in>set T. st s = st t \<longrightarrow> tk s = tk t"
      unfolding sT sL tk_def using fd by blast
    have tkst: "\<forall>s t. tk s = tk t \<longrightarrow> st s = st t" unfolding tk_def by blast
    have gf: "distinct (map fst G) \<and> (\<forall>kg\<in>set G. snd kg = filter (\<lambda>s. st s = fst kg) T)"
      unfolding G_def by (rule groupby_sorted_filter[OF srtT fdT tkst])
    have "snd kg = filter (\<lambda>s. st s = fst kg) L
              \<and> sorted (rev (map (length_key ar f) (snd kg)))" if kg: "kg \<in> set G" for kg
    proof -
      have e: "snd kg = filter (\<lambda>s. st s = fst kg) T" using gf kg by blast
      from c3 kg have ne: "snd kg \<noteq> []" and al: "\<forall>s\<in>set (snd kg). st s = fst kg" by blast+
      from ne obtain s0 where s0: "s0 \<in> set (snd kg)" by (cases "snd kg") auto
      then have s0k: "st s0 = fst kg" using al by blast
      have "s0 \<in> set (filter (\<lambda>s. st s = fst kg) T)" using s0 by (simp only: e[symmetric])
      then have s0T: "s0 \<in> set T" by simp
      have iff: "(st s = fst kg) = (tk s = tk s0)" if "s \<in> set T" for s
      proof
        assume "st s = fst kg"
        then have "st s = st s0" using s0k by simp
        then show "tk s = tk s0" using fdT[rule_format, OF that s0T] by blast
      next
        assume "tk s = tk s0"
        then have "st s = st s0" by (rule tkst[rule_format])
        then show "st s = fst kg" using s0k by simp
      qed
      have "filter (\<lambda>s. st s = fst kg) T = filter (\<lambda>s. tk s = tk s0) T"
        by (rule filter_cong[OF refl]) (rule iff)
      also have "\<dots> = filter (\<lambda>s. tk s = tk s0) L"
        unfolding T_def by (rule sort_key_stable)
      also have "\<dots> = filter (\<lambda>s. st s = fst kg) L"
        by (rule filter_cong[OF refl]) (simp add: iff[unfolded sT])
      finally have "filter (\<lambda>s. st s = fst kg) T = filter (\<lambda>s. st s = fst kg) L" .
      with e have e2: "snd kg = filter (\<lambda>s. st s = fst kg) L" by (rule trans)
      have "sorted (rev (map (length_key ar f) (filter (\<lambda>s. st s = fst kg) L)))"
        by (rule sorted_rev_filter[OF srtL])
      then have "sorted (rev (map (length_key ar f) (snd kg)))" unfolding e2[symmetric] .
      then show ?thesis using e2 by blast
    qed
    then show ?thesis using gf by blast
  qed
  show ?thesis unfolding G F L_def[symmetric] tk_def[symmetric]
    using c1 c2 c3 c4 srtL c6 by blast
qed

theorem iterate_synthase_types_groups_witness:
  "distinct (map fst (fst (iterate_synthase_types example_type example_refined_subtype
         example_architecture example_figure)))
   \<and> map (\<lambda>kg. (fst kg, map header (snd kg)))
        (fst (iterate_synthase_types example_type example_refined_subtype
           example_architecture example_figure))
      = [(''other NRPS'', [''b'']), (''reducing NRPS'', [''c'']), (''other PKS'', [''d'', ''a''])]"
proof -
  have fd: "\<forall>s\<in>set (synthases example_figure). \<forall>t\<in>set (synthases example_figure).
      example_refined_subtype s = example_refined_subtype t \<longrightarrow> example_type s = example_type t"
    by code_simp
  have ev: "map (\<lambda>kg. (fst kg, map header (snd kg)))
        (fst (iterate_synthase_types example_type example_refined_subtype
           example_architecture example_figure))
      = [(''other NRPS'', [''b'']), (''reducing NRPS'', [''c'']), (''other PKS'', [''d'', ''a''])]"
    by code_simp
  from iterate_synthase_types_groups[of example_type example_refined_subtype
      example_architecture example_figure] fd
  have "distinct (map fst (fst (iterate_synthase_types example_type example_refined_subtype
         example_architecture example_figure)))" by blast
  then show ?thesis using ev by blast
qed

text \<open>
  Without that condition the claim fails: with a classification in which the subtype
  \<open>other\<close> occurs under the types \<open>NRPS\<close> and \<open>PKS\<close>, two groups are keyed \<open>other\<close>.
\<close>

theorem iterate_synthase_types_subtype_repeats:
  "map fst (fst (iterate_synthase_types example_type example_subtype example_architecture
       example_figure)) = [''other'', ''reducing'', ''other'']
   \<and> \<not> distinct (map fst (fst (iterate_synthase_types example_type example_subtype
       example_architecture example_figure)))"
  by code_simp

subsection \<open>Serialisation round trip\<close>

lemma map_result_map:
  assumes "\<And>x. x \<in> set xs \<Longrightarrow> g (h x) = Inr x"
  shows "map_result g (map h xs) = Inr xs"
  using assms by (induction xs) simp_all

lemma domain_roundtrip: "domain_from_dict (domain_to_dict d) = Inr d"
  by (simp add: domain_from_dict_def domain_to_dict_def json_str_def json_int_def json_get_def)

lemma synthase_roundtrip: "from_dict (to_dict s) = Inr s"
proof -
  have "map_result domain_from_dict (map domain_to_dict (domains s)) = Inr (domains s)"
    by (rule map_result_map) (rule domain_roundtrip)
  then show ?thesis
    by (simp add: from_dict_def to_dict_def json_str_def json_get_def)
qed

text \<open>
  Claim C2. Deserialising the serialisation of a Figure gives a Figure with the same entity
  list (the same entities, each with its header, sequence and domains, in the same order) and
  with the default colours, whatever the colours of the original were.
\<close>

theorem json_roundtrip:
  "from_json (to_json f) = Inr \<lparr>synthases = synthases f, colours = default_colours\<rparr>"
proof -
  have "map_result from_dict (map to_dict (synthases f)) = Inr (synthases f)"
    by (rule map_result_map) (rule synthase_roundtrip)
  then show ?thesis by (simp add: from_json_def to_json_def Figure_init_def)
qed

subsection \<open>Floating-point rounding\<close>

lemma floor_rat_numeral: "\<lfloor>numeral a / numeral b :: rat\<rfloor> = numeral a div numeral b"
  using floor_divide_of_int_eq[of "numeral a" "numeral b", where ?'a = rat] by simp

lemma ceiling_rat_numeral: "\<lceil>numeral a / numeral b :: rat\<rceil> = - (- numeral a div numeral b)"
  using floor_divide_of_int_eq[of "- numeral a" "numeral b", where ?'a = rat]
  by (simp add: ceiling_def)

lemma pow2_numeral: "pow2 (numeral n) = 2 ^ numeral n"
  by (simp add: pow2_def)

lemma pow2_neg_numeral: "pow2 (- numeral n) = 1 / 2 ^ numeral n"
  by (simp add: pow2_def power_int_minus inverse_eq_divide)

lemma pow2_0: "pow2 0 = 1"
  by (simp add: pow2_def)

lemmas double_eval = round_double_def ilog2_def compute_bitlen pow2_numeral pow2_neg_numeral
  pow2_0 round_half_even_def Let_def floor_rat_numeral ceiling_rat_numeral









lemma round_double_1_49: "round_double (1/49) = 5882252574524729 / 2 ^ 58"
  by (simp add: double_eval)










subsection \<open>The scale factor\<close>





lemmas figure_eval = mk_synthase_def mk_domain_def sequence_length_def synthase_A_def




subsection \<open>Errors of the scale factor and of \<open>visualise\<close>\<close>

lemma visualise_propagates:
  "calculate_scale_factor f (width opts) = Inl e \<Longrightarrow>
   visualise ty st ar fr f opts = (Inl e, f)"
  by (simp add: visualise_def)

lemma calculate_scale_factor_empty_sequence:
  "\<exists>s\<in>set (synthases f). sequence s = [] \<Longrightarrow>
   calculate_scale_factor f w = Inl (ValueError ''Synthases in this Figure have no sequences'')"
  by (simp add: calculate_scale_factor_def list_ex_iff)

lemma calculate_scale_factor_negative:
  "\<not> (\<exists>s\<in>set (synthases f). sequence s = []) \<Longrightarrow> w < 0 \<Longrightarrow>
   calculate_scale_factor f w = Inl (ValueError ''Width must be greater than 0'')"
  by (simp add: calculate_scale_factor_def list_ex_iff)

text \<open>
  Claim C6 (as amended). \<open>calculate_scale_factor\<close> raises the empty-sequence error whenever
  some entity has an empty sequence, whatever the width; it raises the width error whenever the
  width is negative and no entity has an empty sequence. \<open>visualise\<close> passes on every error
  of \<open>calculate_scale_factor\<close>, produces no document and leaves the Figure as it was.
\<close>

theorem scale_factor_errors:
  "((\<exists>s\<in>set (synthases f). sequence s = []) \<longrightarrow>
      calculate_scale_factor f (width opts)
        = Inl (ValueError ''Synthases in this Figure have no sequences'')
      \<and> visualise ty st ar fr f opts
        = (Inl (ValueError ''Synthases in this Figure have no sequences''), f))
   \<and> (\<not> (\<exists>s\<in>set (synthases f). sequence s = []) \<and> width opts < 0 \<longrightarrow>
      calculate_scale_factor f (width opts) = Inl (ValueError ''Width must be greater than 0'')
      \<and> visualise ty st ar fr f opts = (Inl (ValueError ''Width must be greater than 0''), f))
   \<and> (\<forall>e. calculate_scale_factor f (width opts) = Inl e \<longrightarrow>
          visualise ty st ar fr f opts = (Inl e, f))"
  using calculate_scale_factor_empty_sequence[of f "width opts"]
    calculate_scale_factor_negative[of f "width opts"]
    visualise_propagates[of f opts _ ty st ar fr]
  by blast

theorem scale_factor_errors_witness:
  "calculate_scale_factor figure_empty_sequence (width default_options)
        = Inl (ValueError ''Synthases in this Figure have no sequences'')
   \<and> visualise example_type example_subtype example_architecture (\<lambda>x. []) figure_empty_sequence
        default_options
        = (Inl (ValueError ''Synthases in this Figure have no sequences''), figure_empty_sequence)
   \<and> calculate_scale_factor figure_A (width (default_options\<lparr>width := - 1\<rparr>))
        = Inl (ValueError ''Width must be greater than 0'')
   \<and> visualise example_type example_subtype example_architecture (\<lambda>x. []) figure_A
        (default_options\<lparr>width := - 1\<rparr>)
        = (Inl (ValueError ''Width must be greater than 0''), figure_A)"
proof -
  have h1: "\<exists>s\<in>set (synthases figure_empty_sequence). sequence s = []"
    by (simp add: figure_empty_sequence_def figure_eval)
  have h2: "\<not> (\<exists>s\<in>set (synthases figure_A). sequence s = [])
      \<and> width (default_options\<lparr>width := - 1\<rparr>) < 0"
    by (simp add: figure_A_def figure_eval)
  show ?thesis
    using h1 h2
      scale_factor_errors[of figure_empty_sequence default_options example_type example_subtype
        example_architecture "\<lambda>x. []"]
      scale_factor_errors[of figure_A "default_options\<lparr>width := - 1\<rparr>" example_type
        example_subtype example_architecture "\<lambda>x. []"]
    by blast
qed

text \<open>
  With a negative width and an empty sequence the empty-sequence check, which comes first,
  decides: the error is not the width error.
\<close>

theorem negative_width_with_empty_sequence:
  "calculate_scale_factor figure_empty_sequence (- 1)
     = Inl (ValueError ''Synthases in this Figure have no sequences'')
   \<and> calculate_scale_factor figure_empty_sequence (- 1)
     \<noteq> Inl (ValueError ''Width must be greater than 0'')"
  by (simp add: calculate_scale_factor_def figure_empty_sequence_def figure_eval)

text \<open>
  Claim C9. For a Figure without entities \<open>calculate_scale_factor\<close> always raises, and so does
  \<open>visualise\<close>, without a document: for a width that is not negative both checks pass and
  \<open>max\<close> of the empty list raises.
\<close>

theorem empty_figure_not_rendered:
  assumes "synthases f = []"
  shows "(0 \<le> width opts \<longrightarrow>
            calculate_scale_factor f (width opts)
              = Inl (ValueError ''max() arg is an empty sequence'')
            \<and> visualise ty st ar fr f opts
              = (Inl (ValueError ''max() arg is an empty sequence''), f))
    \<and> (\<exists>e. calculate_scale_factor f (width opts) = Inl e
            \<and> visualise ty st ar fr f opts = (Inl e, f))"
proof -
  have a: "calculate_scale_factor f (width opts)
      = (if width opts < 0 then Inl (ValueError ''Width must be greater than 0'')
         else Inl (ValueError ''max() arg is an empty sequence''))"
    using assms by (simp add: calculate_scale_factor_def)
  show ?thesis
  proof (cases "width opts < 0")
    case True
    then have "calculate_scale_factor f (width opts) = Inl (ValueError ''Width must be greater than 0'')"
      using a by simp
    then show ?thesis using True visualise_propagates by fastforce
  next
    case False
    then have "calculate_scale_factor f (width opts) = Inl (ValueError ''max() arg is an empty sequence'')"
      using a by simp
    then show ?thesis using visualise_propagates by fastforce
  qed
qed

theorem empty_figure_not_rendered_witness:
  "calculate_scale_factor \<lparr>synthases = [], colours = default_colours\<rparr> (width default_options)
     = Inl (ValueError ''max() arg is an empty sequence'')
   \<and> visualise example_type example_subtype example_architecture (\<lambda>x. [])
        \<lparr>synthases = [], colours = default_colours\<rparr> default_options
     = (Inl (ValueError ''max() arg is an empty sequence''),
        \<lparr>synthases = [], colours = default_colours\<rparr>)"
proof -
  have h: "synthases \<lparr>synthases = [], colours = default_colours\<rparr> = []" by simp
  have w: "0 \<le> width default_options" by (simp add: default_options_def)
  show ?thesis
    using w empty_figure_not_rendered[OF h, of default_options example_type example_subtype
        example_architecture "\<lambda>x. []"]
    by blast
qed

subsection \<open>The gradient\<close>











text \<open>The percentage is computed in \<open>float\<close> arithmetic, as in the source; it can be one less
  than the floor of the exact quotient.\<close>

lemma floor_percent_29: "floor_percent 29 100 = 28"
  by (simp add: floor_percent_def double_eval)

subsection \<open>The polygon\<close>










end
